theory Spec2Isabelle
  imports Main "HOL-Library.Sublist"
begin

text \<open>
  The chat client of the assistant (src/frontend/app.js and its later version
  src/unnamed/part_000): the event loop of \<^verbatim>\<open>send\<close> over the lines of the response, the
  page with its \<^verbatim>\<open>busy\<close> flag, and \<^verbatim>\<open>formatMarkdown\<close>; and the orchestrator of the backend, as
  far as the specification describes it.
\<close>

section \<open>Strings\<close>

text \<open>
  A JavaScript string is modelled as a \<^typ>\<open>string\<close>: the list of the bytes of its UTF-8
  form. Every character the client tests for is ASCII (one byte, one UTF-16 code unit),
  except the bullet U+2022 and the warning sign U+26A0 U+FE0F, which are the byte
  sequences below. An ASCII byte never occurs inside the encoding of another character,
  so a replacement of an ASCII character, or of one of the two sequences, is the same on
  code units and on bytes.
\<close>

definition bullet :: string where
  "bullet = [CHR 0xE2, CHR 0x80, CHR 0xA2]"

definition warning_sign :: string where
  "warning_sign = [CHR 0xE2, CHR 0x9A, CHR 0xA0, CHR 0xEF, CHR 0xB8, CHR 0x8F]"

text \<open>\<^verbatim>\<open>s.replace(/c/g, rep)\<close> for a single character \<open>c\<close>.\<close>

definition replace_char :: "char \<Rightarrow> string \<Rightarrow> string \<Rightarrow> string" where
  "replace_char c rep s = concat (map (\<lambda>x. if x = c then rep else [x]) s)"

text \<open>
  \<^verbatim>\<open>s.replace(/pat/g, rep)\<close> for a literal pattern of several characters: the scan goes
  from left to right and resumes after each match.
\<close>

function replace_all :: "string \<Rightarrow> string \<Rightarrow> string \<Rightarrow> string" where
  "replace_all pat rep [] = []"
| "replace_all pat rep (c # cs) =
     (if prefix pat (c # cs)
      then rep @ replace_all pat rep (drop (length pat - 1) cs)
      else c # replace_all pat rep cs)"
  by pat_completeness auto
termination
  by (relation "measure (\<lambda>(pat, rep, s). length s)") auto

text \<open>\<^verbatim>\<open>s.split('\n')\<close>: the empty string gives one empty line.\<close>

fun split_on :: "char \<Rightarrow> string \<Rightarrow> string list" where
  "split_on d [] = [[]]"
| "split_on d (c # cs) =
     (if c = d then [] # split_on d cs
      else (case split_on d cs of
              [] \<Rightarrow> [[c]]
            | l # ls \<Rightarrow> (c # l) # ls))"

section \<open>formatMarkdown (src/unnamed/part_000)\<close>

text \<open>The three escapes, in the order of the source.\<close>

definition escapeHtml :: "string \<Rightarrow> string" where
  "escapeHtml s =
     replace_char (CHR ''>'') ''&gt;''
       (replace_char (CHR ''<'') ''&lt;''
          (replace_char (CHR ''&'') ''&amp;'' s))"

text \<open>
  One attempt of the regular expression \<^verbatim>\<open>\*\*([^*]+)\*\*\<close> at the head of a string:
  two stars, the longest run of characters other than a star (at least one), two stars.
  A shorter run cannot match, because the character after it is not a star. The result is
  the captured group and the rest of the string after the match.
\<close>

definition match_bold :: "string \<Rightarrow> (string \<times> string) option" where
  "match_bold s =
     (if prefix ''**'' s then
        (let body = drop 2 s;
             inner = takeWhile (\<lambda>c. c \<noteq> CHR ''*'') body;
             after = dropWhile (\<lambda>c. c \<noteq> CHR ''*'') body
         in if inner \<noteq> [] \<and> prefix ''**'' after then Some (inner, drop 2 after) else None)
      else None)"

text \<open>\<^verbatim>\<open>html.replace(/\*\*([^*]+)\*\*/g, '<strong>$1</strong>')\<close>.\<close>

function bold :: "string \<Rightarrow> string" where
  "bold [] = []"
| "bold (c # cs) =
     (case match_bold (c # cs) of
        Some (inner, rest) \<Rightarrow> ''<strong>'' @ inner @ ''</strong>'' @ bold rest
      | None \<Rightarrow> c # bold cs)"
  by pat_completeness auto
termination
proof (relation "measure length")
  show "wf (measure length)" by simp
next
  fix c cs x2 x y
  assume "match_bold (c # cs) = Some x2" "(x, y) = x2"
  then have m: "match_bold (c # cs) = Some (x, y)" by simp
  let ?body = "drop 2 (c # cs)"
  from m have "y = drop 2 (dropWhile (\<lambda>c. c \<noteq> CHR ''*'') ?body)"
    by (auto simp: match_bold_def Let_def split: if_splits)
  then have "length y \<le> length (dropWhile (\<lambda>c. c \<noteq> CHR ''*'') ?body)"
    by simp
  also have "\<dots> \<le> length ?body"
    by (rule length_dropWhile_le)
  also have "\<dots> < length (c # cs)"
    by simp
  finally show "(y, c # cs) \<in> measure length"
    by simp
next
  fix c :: char and cs :: string
  show "(cs, c # cs) \<in> measure length" by simp
qed

definition bullet_span :: string where
  \<open>bullet_span = ''<span style="color: #60a5fa;">'' @ bullet @ ''</span>''\<close>

definition warning_span :: string where
  \<open>warning_span = ''<span style="color: #fbbf24;">'' @ warning_sign @ ''</span>''\<close>

definition formatMarkdown :: "string \<Rightarrow> string" where
  "formatMarkdown text =
     replace_all warning_sign warning_span
       (replace_all bullet bullet_span
          (replace_char (CHR 0x0A) ''<br>''
             (bold (escapeHtml text))))"

subsection \<open>The markup of the result\<close>

text \<open>The escape of one character.\<close>

definition escape_char :: "char \<Rightarrow> string" where
  "escape_char c =
     (if c = CHR ''&'' then ''&amp;''
      else if c = CHR ''<'' then ''&lt;''
      else if c = CHR ''>'' then ''&gt;''
      else [c])"

text \<open>The tags that \<^verbatim>\<open>formatMarkdown\<close> writes.\<close>

definition formatter_tags :: "string list" where
  \<open>formatter_tags =
     [''<strong>'', ''</strong>'', ''<br>'',
      ''<span style="color: #60a5fa;">'', ''<span style="color: #fbbf24;">'', ''</span>'']\<close>

text \<open>The rest of a string after the tag of the formatter that it starts with.\<close>

definition strip_tag :: "string \<Rightarrow> string option" where
  "strip_tag s =
     (case filter (\<lambda>t. prefix t s) formatter_tags of
        [] \<Rightarrow> None
      | t # ts \<Rightarrow> Some (drop (length t) s))"

text \<open>
  A string is markup of the formatter alone: every \<^verbatim>\<open><\<close> in it starts one of the tags above,
  and no \<^verbatim>\<open>>\<close> occurs outside of these tags.
\<close>

function only_formatter_tags :: "string \<Rightarrow> bool" where
  "only_formatter_tags [] = True"
| "only_formatter_tags (c # s) =
     (if c = CHR ''<'' then
        (case strip_tag (c # s) of
           None \<Rightarrow> False
         | Some rest \<Rightarrow> only_formatter_tags rest)
      else c \<noteq> CHR ''>'' \<and> only_formatter_tags s)"
  by pat_completeness auto
termination
proof (relation "measure length")
  show "wf (measure length)" by simp
next
  fix c :: char and s rest :: string
  assume "c = CHR ''<''" and st: "strip_tag (c # s) = Some rest"
  then obtain t ts where f: "filter (\<lambda>t. prefix t (c # s)) formatter_tags = t # ts"
    and r: "rest = drop (length t) (c # s)"
    by (auto simp: strip_tag_def split: list.splits)
  from f have "t \<in> set (filter (\<lambda>t. prefix t (c # s)) formatter_tags)" by simp
  then have "t \<in> set formatter_tags" by simp
  then have "t \<noteq> []" by (auto simp: formatter_tags_def)
  with r show "(rest, c # s) \<in> measure length" by simp
next
  fix c :: char and s :: string
  show "(s, c # s) \<in> measure length" by simp
qed

text \<open>A string without \<^verbatim>\<open><\<close> and \<^verbatim>\<open>>\<close>.\<close>

definition no_angle :: "string \<Rightarrow> bool" where
  "no_angle s \<longleftrightarrow> CHR ''<'' \<notin> set s \<and> CHR ''>'' \<notin> set s"

section \<open>Values of the JavaScript runtime\<close>

text \<open>
  What \<^verbatim>\<open>JSON.parse\<close> returns, and \<^verbatim>\<open>undefined\<close> for a property that is absent.
  A number carries the string that the runtime prints for it. An object lists each key
  once, as \<^verbatim>\<open>JSON.parse\<close> keeps one value for each key.
\<close>

datatype js_value =
    JUndefined
  | JNull
  | JBool bool
  | JNumber string
  | JString string
  | JArray "js_value list"
  | JObject "(string \<times> js_value) list"

datatype exn = TypeError

text \<open>
  \<^verbatim>\<open>data.name\<close> for a name that no prototype defines (\<^verbatim>\<open>type\<close> and \<^verbatim>\<open>content\<close> are such
  names): a property of \<^verbatim>\<open>null\<close> or \<^verbatim>\<open>undefined\<close> throws.
\<close>

fun get_prop :: "js_value \<Rightarrow> string \<Rightarrow> exn + js_value" where
  "get_prop JUndefined k = Inl TypeError"
| "get_prop JNull k = Inl TypeError"
| "get_prop (JObject kv) k =
     Inr (case map_of kv k of None \<Rightarrow> JUndefined | Some v \<Rightarrow> v)"
| "get_prop v k = Inr JUndefined"

text \<open>
  The conversion to a string of a template literal and of \<^verbatim>\<open>text += v\<close>. An object
  prints as \<^verbatim>\<open>[object Object]\<close>, unless it has a key \<^verbatim>\<open>toString\<close> of its own: that value
  is not callable and the conversion throws. An array is joined with commas, an element
  \<^verbatim>\<open>null\<close> or \<^verbatim>\<open>undefined\<close> printing as the empty string.
\<close>

fun to_str :: "js_value \<Rightarrow> exn + string"
  and join_elems :: "js_value list \<Rightarrow> exn + string" where
  "to_str JUndefined = Inr ''undefined''"
| "to_str JNull = Inr ''null''"
| "to_str (JBool b) = Inr (if b then ''true'' else ''false'')"
| "to_str (JNumber r) = Inr r"
| "to_str (JString s) = Inr s"
| "to_str (JArray xs) = join_elems xs"
| "to_str (JObject kv) =
     (if ''toString'' \<in> set (map fst kv) then Inl TypeError else Inr ''[object Object]'')"
| "join_elems [] = Inr []"
| "join_elems (x # xs) =
     (case (if x = JNull \<or> x = JUndefined then Inr [] else to_str x) of
        Inl e \<Rightarrow> Inl e
      | Inr s \<Rightarrow>
          (if xs = [] then Inr s
           else (case join_elems xs of
                   Inl e \<Rightarrow> Inl e
                 | Inr r \<Rightarrow> Inr (s @ '','' @ r))))"

section \<open>One turn of the client: send\<close>

text \<open>
  The content of the element \<^verbatim>\<open>response\<close>: empty as created, set through
  \<^verbatim>\<open>textContent\<close> (src/frontend/app.js) or through \<^verbatim>\<open>innerHTML\<close> (src/unnamed/part_000).
\<close>

datatype dom_content = NoContent | TextContent string | InnerHTML string

text \<open>
  What one call of \<^verbatim>\<open>send\<close> owns: the elements \<^verbatim>\<open>userMsg\<close>, \<^verbatim>\<open>status\<close> and \<^verbatim>\<open>response\<close>
  that it appends to the chat, its local variable \<^verbatim>\<open>text\<close> (the field \<open>text_var\<close>, as
  \<open>text\<close> is a keyword here), and the number of its calls of \<^verbatim>\<open>scroll()\<close>.
\<close>

record turn =
  user_text :: string
  status_class :: string
  status_html :: string
  response :: dom_content
  text_var :: string
  scrolled :: nat

definition scroll :: "turn \<Rightarrow> turn" where
  "scroll t = t\<lparr>scrolled := Suc (scrolled t)\<rparr>"

definition spinner :: "string \<Rightarrow> string" where
  \<open>spinner c = ''<div class="spinner"></div><span>'' @ c @ ''</span>''\<close>

text \<open>\<^verbatim>\<open>data.content\<close> converted to a string.\<close>

definition content_string :: "js_value \<Rightarrow> exn + string" where
  "content_string data =
     (case get_prop data ''content'' of Inl e \<Rightarrow> Inl e | Inr v \<Rightarrow> to_str v)"

text \<open>
  The body of the inner \<^verbatim>\<open>try\<close> after \<^verbatim>\<open>JSON.parse\<close>, in src/frontend/app.js
  (lines 75 to 84). \<open>Inl\<close> is an exception, thrown before any assignment.
\<close>

definition handle_data_app :: "js_value \<Rightarrow> turn \<Rightarrow> exn + turn" where
  "handle_data_app data t =
     (case get_prop data ''type'' of
        Inl e \<Rightarrow> Inl e
      | Inr ty \<Rightarrow>
          if ty = JString ''status'' then
            (case content_string data of
               Inl e \<Rightarrow> Inl e
             | Inr c \<Rightarrow> Inr (scroll (t\<lparr>status_html := spinner c\<rparr>)))
          else if ty = JString ''text'' then
            (case content_string data of
               Inl e \<Rightarrow> Inl e
             | Inr c \<Rightarrow>
                 Inr (scroll (t\<lparr>text_var := text_var t @ c, response := TextContent (text_var t @ c)\<rparr>)))
          else if ty = JString ''done'' then
            Inr (scroll (t\<lparr>status_class := ''status done'', status_html := ''Complete''\<rparr>))
          else Inr (scroll t))"

text \<open>The same in src/unnamed/part_000 (lines 97 to 107).\<close>

definition handle_data_md :: "js_value \<Rightarrow> turn \<Rightarrow> exn + turn" where
  "handle_data_md data t =
     (case get_prop data ''type'' of
        Inl e \<Rightarrow> Inl e
      | Inr ty \<Rightarrow>
          if ty = JString ''status'' then
            (case content_string data of
               Inl e \<Rightarrow> Inl e
             | Inr c \<Rightarrow> Inr (scroll (t\<lparr>status_html := spinner c\<rparr>)))
          else if ty = JString ''text'' then
            (case content_string data of
               Inl e \<Rightarrow> Inl e
             | Inr c \<Rightarrow>
                 Inr (scroll (t\<lparr>text_var := text_var t @ c,
                                 response := InnerHTML (formatMarkdown (text_var t @ c))\<rparr>)))
          else if ty = JString ''done'' then
            Inr (scroll (t\<lparr>status_class := ''status done'', status_html := ''Complete'',
                            response := InnerHTML (formatMarkdown (text_var t))\<rparr>))
          else Inr (scroll t))"

text \<open>
  One line of a chunk. \<open>parse\<close> is \<^verbatim>\<open>JSON.parse\<close> of the runtime, \<open>None\<close> when it throws;
  \<open>handle\<close> is one of the two bodies above. A line without the prefix is skipped by
  \<^verbatim>\<open>continue\<close>; an exception of the body is caught by the empty \<^verbatim>\<open>catch\<close>.
\<close>

definition handle_line ::
  "(js_value \<Rightarrow> turn \<Rightarrow> exn + turn) \<Rightarrow> (string \<Rightarrow> js_value option) \<Rightarrow> string \<Rightarrow> turn \<Rightarrow> turn" where
  "handle_line handle parse line t =
     (if \<not> prefix ''data: '' line then t
      else (case parse (drop 6 line) of
              None \<Rightarrow> t
            | Some data \<Rightarrow> (case handle data t of Inl e \<Rightarrow> t | Inr t' \<Rightarrow> t')))"

text \<open>The \<^verbatim>\<open>for\<close> loop over the lines.\<close>

fun handle_lines ::
  "(js_value \<Rightarrow> turn \<Rightarrow> exn + turn) \<Rightarrow> (string \<Rightarrow> js_value option) \<Rightarrow> string list \<Rightarrow> turn \<Rightarrow> turn" where
  "handle_lines handle parse [] t = t"
| "handle_lines handle parse (line # ls) t =
     handle_lines handle parse ls (handle_line handle parse line t)"

text \<open>One chunk, as \<^verbatim>\<open>decoder.decode(value)\<close> returns it.\<close>

definition handle_chunk ::
  "(js_value \<Rightarrow> turn \<Rightarrow> exn + turn) \<Rightarrow> (string \<Rightarrow> js_value option) \<Rightarrow> string \<Rightarrow> turn \<Rightarrow> turn" where
  "handle_chunk handle parse chunk t =
     handle_lines handle parse (split_on (CHR 0x0A) chunk) t"

text \<open>
  What \<^verbatim>\<open>await reader.read()\<close> gives: a chunk, the end of the stream, or an exception.
  The body of a response is the sequence of the results of the successive reads; the
  loop stops at the first that is not a chunk.
\<close>

datatype read_result = Chunk string | EndOfStream | ReadThrows

text \<open>
  The \<^verbatim>\<open>while (true)\<close> loop from its \<open>i\<close>-th read on. \<open>Inr t\<close>: the loop was left by
  \<^verbatim>\<open>break\<close>; \<open>Inl t\<close>: a read threw, with the turn as it was then. The loop does not return
  on a body that gives chunks for ever.
\<close>

partial_function (option) read_loop ::
  "(js_value \<Rightarrow> turn \<Rightarrow> exn + turn) \<Rightarrow> (string \<Rightarrow> js_value option) \<Rightarrow>
   (nat \<Rightarrow> read_result) \<Rightarrow> nat \<Rightarrow> turn \<Rightarrow> (turn + turn) option" where
  "read_loop handle parse body i t =
     (case body i of
        EndOfStream \<Rightarrow> Some (Inr t)
      | ReadThrows \<Rightarrow> Some (Inl t)
      | Chunk c \<Rightarrow> read_loop handle parse body (Suc i) (handle_chunk handle parse c t))"

text \<open>
  \<^verbatim>\<open>await fetch(...)\<close> followed by \<^verbatim>\<open>res.body.getReader()\<close>: either of them throws, or
  there is a body to read.
\<close>

datatype fetch_result = FetchThrows | Response "nat \<Rightarrow> read_result"

text \<open>The page: the variable \<^verbatim>\<open>busy\<close>, the button and the input field.\<close>

record page =
  busy :: bool
  btn_disabled :: bool
  input_value :: string

text \<open>\<^verbatim>\<open>send\<close> up to its first \<^verbatim>\<open>await\<close> (lines 28 to 52 of src/frontend/app.js).\<close>

definition send_begin :: "string \<Rightarrow> page \<Rightarrow> page \<times> turn" where
  "send_begin prompt p =
     (p\<lparr>busy := True, btn_disabled := True\<rparr>,
      scroll (scroll \<lparr>user_text = prompt, status_class = ''status active'',
                      status_html = spinner ''Thinking...'', response = NoContent,
                      text_var = [], scrolled = 0\<rparr>))"

text \<open>The end of the \<^verbatim>\<open>try\<close> block, and the \<^verbatim>\<open>catch\<close> block.\<close>

definition complete :: "turn \<Rightarrow> turn" where
  "complete t = t\<lparr>status_class := ''status done'', status_html := ''Complete''\<rparr>"

definition failed :: "turn \<Rightarrow> turn" where
  "failed t = t\<lparr>status_class := ''status error'',
                 status_html := ''Failed to connect. Is the backend running?''\<rparr>"

text \<open>The last three statements of \<^verbatim>\<open>send\<close>.\<close>

definition send_end :: "page \<Rightarrow> page" where
  "send_end p = p\<lparr>busy := False, btn_disabled := False\<rparr>"

text \<open>
  \<^verbatim>\<open>send(prompt)\<close> run from its call to its return, against the behaviour of the network.
  \<open>None\<close>: the call never returns.
\<close>

definition send ::
  "(js_value \<Rightarrow> turn \<Rightarrow> exn + turn) \<Rightarrow> (string \<Rightarrow> js_value option) \<Rightarrow>
   string \<Rightarrow> fetch_result \<Rightarrow> page \<Rightarrow> (page \<times> turn) option" where
  "send handle parse prompt net p =
     (case send_begin prompt p of
        (p1, t0) \<Rightarrow>
          (case (case net of
                   FetchThrows \<Rightarrow> Some (Inl t0)
                 | Response body \<Rightarrow> read_loop handle parse body 0 t0) of
             None \<Rightarrow> None
           | Some (Inr t) \<Rightarrow> Some (send_end p1, complete t)
           | Some (Inl t) \<Rightarrow> Some (send_end p1, failed t)))"

section \<open>The page and its event handlers\<close>

text \<open>
  Between two \<^verbatim>\<open>await\<close>s a handler runs alone; at an \<^verbatim>\<open>await\<close> a call of \<^verbatim>\<open>send\<close> is
  suspended and other handlers may run. The state of the application is the page, the
  calls of \<^verbatim>\<open>send\<close> that are suspended (with the \<^verbatim>\<open>await\<close> each is at), and the turns of
  the calls that have returned.
\<close>

datatype await = AwaitFetch | AwaitRead

record app =
  the_page :: page
  in_flight :: "(await \<times> turn) list"
  finished :: "turn list"

definition initial :: app where
  "initial = \<lparr>the_page = \<lparr>busy = False, btn_disabled = False, input_value = []\<rparr>,
              in_flight = [], finished = []\<rparr>"

text \<open>
  The listener of the form's \<^verbatim>\<open>submit\<close> event (lines 102 to 109 of src/frontend/app.js).
  \<open>trim\<close> is \<^verbatim>\<open>String.prototype.trim\<close> of the runtime. The call of \<^verbatim>\<open>send\<close> runs up to its
  first \<^verbatim>\<open>await\<close>.
\<close>

definition on_submit :: "(string \<Rightarrow> string) \<Rightarrow> app \<Rightarrow> app" where
  "on_submit trim a =
     (let prompt = trim (input_value (the_page a)) in
      if prompt = [] \<or> busy (the_page a) then a
      else (case send_begin prompt ((the_page a)\<lparr>input_value := []\<rparr>) of
              (p1, t0) \<Rightarrow> a\<lparr>the_page := p1, in_flight := in_flight a @ [(AwaitFetch, t0)]\<rparr>))"

text \<open>
  The listener of \<^verbatim>\<open>keydown\<close> on the input field (lines 16 to 21): \<^verbatim>\<open>dispatchEvent\<close> runs
  the listener of \<^verbatim>\<open>submit\<close> at once.
\<close>

definition on_keydown :: "(string \<Rightarrow> string) \<Rightarrow> string \<Rightarrow> bool \<Rightarrow> app \<Rightarrow> app" where
  "on_keydown trim key shiftKey a =
     (if key = ''Enter'' \<and> \<not> shiftKey \<and> \<not> busy (the_page a) then on_submit trim a else a)"

text \<open>The \<open>i\<close>-th suspended call returns: its turn is final and the page is unlocked.\<close>

definition finish :: "nat \<Rightarrow> turn \<Rightarrow> app \<Rightarrow> app" where
  "finish i t a =
     a\<lparr>the_page := send_end (the_page a),
       in_flight := take i (in_flight a) @ drop (Suc i) (in_flight a),
       finished := finished a @ [t]\<rparr>"

text \<open>The \<^verbatim>\<open>fetch\<close> of the \<open>i\<close>-th suspended call settles (\<open>ok\<close>: with a body to read).\<close>

definition settle_fetch :: "nat \<Rightarrow> bool \<Rightarrow> app \<Rightarrow> app" where
  "settle_fetch i ok a =
     (if i < length (in_flight a) then
        (case in_flight a ! i of
           (AwaitFetch, t) \<Rightarrow>
             if ok then a\<lparr>in_flight := (in_flight a)[i := (AwaitRead, t)]\<rparr>
             else finish i (failed t) a
         | (AwaitRead, t) \<Rightarrow> a)
      else a)"

text \<open>A \<^verbatim>\<open>reader.read()\<close> of the \<open>i\<close>-th suspended call settles.\<close>

definition settle_read ::
  "(js_value \<Rightarrow> turn \<Rightarrow> exn + turn) \<Rightarrow> (string \<Rightarrow> js_value option) \<Rightarrow>
   nat \<Rightarrow> read_result \<Rightarrow> app \<Rightarrow> app" where
  "settle_read handle parse i r a =
     (if i < length (in_flight a) then
        (case in_flight a ! i of
           (AwaitFetch, t) \<Rightarrow> a
         | (AwaitRead, t) \<Rightarrow>
             (case r of
                Chunk c \<Rightarrow> a\<lparr>in_flight := (in_flight a)[i := (AwaitRead, handle_chunk handle parse c t)]\<rparr>
              | EndOfStream \<Rightarrow> finish i (complete t) a
              | ReadThrows \<Rightarrow> finish i (failed t) a))
      else a)"

text \<open>
  What can happen to the page: the form is submitted, a key goes down in the input
  field, the user changes the text of the field, or an \<^verbatim>\<open>await\<close> of a suspended call
  settles.
\<close>

datatype page_event =
    Submit
  | KeyDown string bool
  | Input string
  | FetchSettled nat bool
  | ReadSettled nat read_result

fun step ::
  "(js_value \<Rightarrow> turn \<Rightarrow> exn + turn) \<Rightarrow> (string \<Rightarrow> js_value option) \<Rightarrow> (string \<Rightarrow> string) \<Rightarrow>
   app \<Rightarrow> page_event \<Rightarrow> app" where
  "step handle parse trim a Submit = on_submit trim a"
| "step handle parse trim a (KeyDown key shiftKey) = on_keydown trim key shiftKey a"
| "step handle parse trim a (Input v) = a\<lparr>the_page := (the_page a)\<lparr>input_value := v\<rparr>\<rparr>"
| "step handle parse trim a (FetchSettled i ok) = settle_fetch i ok a"
| "step handle parse trim a (ReadSettled i r) = settle_read handle parse i r a"

definition run ::
  "(js_value \<Rightarrow> turn \<Rightarrow> exn + turn) \<Rightarrow> (string \<Rightarrow> js_value option) \<Rightarrow> (string \<Rightarrow> string) \<Rightarrow>
   page_event list \<Rightarrow> app" where
  "run handle parse trim evs = foldl (step handle parse trim) initial evs"

text \<open>The invariant of the page: at most one call in flight, and \<^verbatim>\<open>busy\<close> set exactly then.\<close>

definition one_turn :: "app \<Rightarrow> bool" where
  "one_turn a \<longleftrightarrow> length (in_flight a) \<le> 1 \<and> (busy (the_page a) = (in_flight a \<noteq> []))"

section \<open>The events of a stream, as the client reads them\<close>

text \<open>
  The notions in which the properties below are stated. A line is read as an event when
  it has the prefix, its payload parses, and the body of the loop runs to its end on it:
  a status or a text event with the content as converted to a string, a done event, or
  an event of any other type (a payload whose \<^verbatim>\<open>type\<close> is none of the three strings that
  the loop compares it with). Any other line is read as no event.
\<close>

datatype event = StatusEvent string | TextEvent string | DoneEvent | OtherEvent

definition event_of :: "js_value \<Rightarrow> event option" where
  "event_of data =
     (case get_prop data ''type'' of
        Inl e \<Rightarrow> None
      | Inr ty \<Rightarrow>
          if ty = JString ''status'' then
            (case content_string data of Inl e \<Rightarrow> None | Inr c \<Rightarrow> Some (StatusEvent c))
          else if ty = JString ''text'' then
            (case content_string data of Inl e \<Rightarrow> None | Inr c \<Rightarrow> Some (TextEvent c))
          else if ty = JString ''done'' then Some DoneEvent
          else Some OtherEvent)"

definition received :: "(string \<Rightarrow> js_value option) \<Rightarrow> string \<Rightarrow> event option" where
  "received parse line =
     (if prefix ''data: '' line
      then (case parse (drop 6 line) of None \<Rightarrow> None | Some data \<Rightarrow> event_of data)
      else None)"

text \<open>The contents of the text events of a sequence of lines, in the order of arrival.\<close>

fun text_contents :: "(string \<Rightarrow> js_value option) \<Rightarrow> string list \<Rightarrow> string list" where
  "text_contents parse [] = []"
| "text_contents parse (line # ls) =
     (case received parse line of
        Some (TextEvent c) \<Rightarrow> c # text_contents parse ls
      | _ \<Rightarrow> text_contents parse ls)"

text \<open>The status and done events of a sequence of lines, in the order of arrival.\<close>

fun is_status_or_done :: "event option \<Rightarrow> bool" where
  "is_status_or_done (Some (StatusEvent c)) = True"
| "is_status_or_done (Some DoneEvent) = True"
| "is_status_or_done e = False"

definition status_events :: "(string \<Rightarrow> js_value option) \<Rightarrow> string list \<Rightarrow> event option list" where
  "status_events parse ls = filter is_status_or_done (map (received parse) ls)"

text \<open>The lines of the chunks that the first \<open>n\<close> reads of a body give.\<close>

fun is_chunk :: "read_result \<Rightarrow> bool" where
  "is_chunk (Chunk c) = True"
| "is_chunk r = False"

fun chunk_lines :: "read_result \<Rightarrow> string list" where
  "chunk_lines (Chunk c) = split_on (CHR 0x0A) c"
| "chunk_lines r = []"

definition lines_upto :: "(nat \<Rightarrow> read_result) \<Rightarrow> nat \<Rightarrow> string list" where
  "lines_upto body n = concat (map (\<lambda>i. chunk_lines (body i)) [0..<n])"

text \<open>
  A body ends at its \<open>n\<close>-th read: the reads before it give chunks, and it gives the end of
  the stream or throws.
\<close>

definition ends_at :: "(nat \<Rightarrow> read_result) \<Rightarrow> nat \<Rightarrow> bool" where
  "ends_at body n \<longleftrightarrow> (\<forall>i<n. is_chunk (body i)) \<and> \<not> is_chunk (body n)"

text \<open>The turn as \<^verbatim>\<open>send\<close> creates it, and the page as it leaves it.\<close>

definition new_turn :: "string \<Rightarrow> turn" where
  "new_turn prompt = snd (send_begin prompt \<lparr>busy = False, btn_disabled = False, input_value = []\<rparr>)"

definition unlocked :: "page \<Rightarrow> bool" where
  "unlocked p \<longleftrightarrow> \<not> busy p \<and> \<not> btn_disabled p"



text \<open>The status that a status or done event leaves on display.\<close>

fun status_shown :: "event option \<Rightarrow> string" where
  "status_shown (Some (StatusEvent c)) = spinner c"
| "status_shown e = ''Complete''"


section \<open>Sample inputs\<close>

text \<open>
  Lines as the backend's documentation gives them, a stand-in for \<^verbatim>\<open>JSON.parse\<close> that
  knows their payloads and throws on any other string, and bodies of one or two chunks:
  \<open>two_text_body\<close> has a text event in each of its chunks; \<open>whole_body\<close> and \<open>split_body\<close>
  carry the same bytes, one text event, in one chunk and cut inside the line.
\<close>

definition status_line :: string where
  \<open>status_line = ''data: {"type": "status", "content": "Searching emails..."}''\<close>

definition question_line :: string where
  \<open>question_line = ''data: {"type": "question", "content": "What is the address?"}''\<close>

definition text_line :: string where
  \<open>text_line = ''data: {"type": "text", "content": "Found **3** emails"}''\<close>

definition done_line :: string where
  \<open>done_line = ''data: {"type": "done", "content": ""}''\<close>

definition more_text_line :: string where
  \<open>more_text_line = ''data: {"type": "text", "content": " from school"}''\<close>

definition sample_parse :: "string \<Rightarrow> js_value option" where
  "sample_parse s =
     (if s = drop 6 status_line
        then Some (JObject [(''type'', JString ''status''), (''content'', JString ''Searching emails...'')])
      else if s = drop 6 question_line
        then Some (JObject [(''type'', JString ''question''), (''content'', JString ''What is the address?'')])
      else if s = drop 6 text_line
        then Some (JObject [(''type'', JString ''text''), (''content'', JString ''Found **3** emails'')])
      else if s = drop 6 done_line
        then Some (JObject [(''type'', JString ''done''), (''content'', JString [])])
      else if s = drop 6 more_text_line
        then Some (JObject [(''type'', JString ''text''), (''content'', JString '' from school'')])
      else None)"

definition sample_body :: "nat \<Rightarrow> read_result" where
  "sample_body i =
     (if i = 0 then Chunk (status_line @ [CHR 0x0A, CHR 0x0A] @ ''data: {oops'' @ [CHR 0x0A])
      else if i = 1 then Chunk (text_line @ [CHR 0x0A, CHR 0x0A] @ done_line @ [CHR 0x0A, CHR 0x0A])
      else EndOfStream)"




section \<open>The orchestrator\<close>

text \<open>
  Modelled from the spec: the Executor and the Orchestrator (sections 4.3, 4.5, 5 and 7 of
  the specification). The backend that implements them (the agent orchestrator that the
  README names) is not among the sources; the definitions below follow the words of the
  specification.
\<close>


















section \<open>The loop over the lines\<close>

lemma handle_lines_append:
  "handle_lines h p (xs @ ys) t = handle_lines h p ys (handle_lines h p xs t)"
  by (induction xs arbitrary: t) simp_all

lemma handle_line_none:
  "received parse line = None \<Longrightarrow> h = handle_data_app \<or> h = handle_data_md \<Longrightarrow>
   handle_line h parse line t = t"
  by (auto simp: received_def handle_line_def event_of_def handle_data_app_def handle_data_md_def
      split: if_splits option.splits sum.splits)

lemma handle_line_status:
  "received parse line = Some (StatusEvent c) \<Longrightarrow> h = handle_data_app \<or> h = handle_data_md \<Longrightarrow>
   handle_line h parse line t = scroll (t\<lparr>status_html := spinner c\<rparr>)"
  by (auto simp: received_def handle_line_def event_of_def handle_data_app_def handle_data_md_def
      split: if_splits option.splits sum.splits)

lemma handle_line_text_app:
  "received parse line = Some (TextEvent c) \<Longrightarrow>
   handle_line handle_data_app parse line t =
     scroll (t\<lparr>text_var := text_var t @ c, response := TextContent (text_var t @ c)\<rparr>)"
  by (auto simp: received_def handle_line_def event_of_def handle_data_app_def
      split: if_splits option.splits sum.splits)

lemma handle_line_text_md:
  "received parse line = Some (TextEvent c) \<Longrightarrow>
   handle_line handle_data_md parse line t =
     scroll (t\<lparr>text_var := text_var t @ c, response := InnerHTML (formatMarkdown (text_var t @ c))\<rparr>)"
  by (auto simp: received_def handle_line_def event_of_def handle_data_md_def
      split: if_splits option.splits sum.splits)

lemma handle_line_done_app:
  "received parse line = Some DoneEvent \<Longrightarrow>
   handle_line handle_data_app parse line t =
     scroll (t\<lparr>status_class := ''status done'', status_html := ''Complete''\<rparr>)"
  by (auto simp: received_def handle_line_def event_of_def handle_data_app_def
      split: if_splits option.splits sum.splits)

lemma handle_line_done_md:
  "received parse line = Some DoneEvent \<Longrightarrow>
   handle_line handle_data_md parse line t =
     scroll (t\<lparr>status_class := ''status done'', status_html := ''Complete'',
                response := InnerHTML (formatMarkdown (text_var t))\<rparr>)"
  by (auto simp: received_def handle_line_def event_of_def handle_data_md_def
      split: if_splits option.splits sum.splits)

lemma handle_line_other:
  "received parse line = Some OtherEvent \<Longrightarrow> h = handle_data_app \<or> h = handle_data_md \<Longrightarrow>
   handle_line h parse line t = scroll t"
  by (auto simp: received_def handle_line_def event_of_def handle_data_app_def handle_data_md_def
      split: if_splits option.splits sum.splits)

lemma handle_line_app_cases:
  obtains (no_event) "received parse line = None"
      "handle_line handle_data_app parse line t = t"
  | (status_event) c where "received parse line = Some (StatusEvent c)"
      "handle_line handle_data_app parse line t = scroll (t\<lparr>status_html := spinner c\<rparr>)"
  | (text_event) c where "received parse line = Some (TextEvent c)"
      "handle_line handle_data_app parse line t =
         scroll (t\<lparr>text_var := text_var t @ c, response := TextContent (text_var t @ c)\<rparr>)"
  | (done_event) "received parse line = Some DoneEvent"
      "handle_line handle_data_app parse line t =
         scroll (t\<lparr>status_class := ''status done'', status_html := ''Complete''\<rparr>)"
  | (other_event) "received parse line = Some OtherEvent"
      "handle_line handle_data_app parse line t = scroll t"
proof (cases "received parse line")
  case None
  with no_event show ?thesis by (simp add: handle_line_none)
next
  case (Some e)
  show ?thesis
  proof (cases e)
    case (StatusEvent c)
    with Some show ?thesis by (intro status_event [of c]) (simp_all add: handle_line_status)
  next
    case (TextEvent c)
    with Some show ?thesis by (intro text_event [of c]) (simp_all add: handle_line_text_app)
  next
    case DoneEvent
    with Some show ?thesis by (intro done_event) (simp_all add: handle_line_done_app)
  next
    case OtherEvent
    with Some show ?thesis by (intro other_event) (simp_all add: handle_line_other)
  qed
qed

lemma handle_line_md_cases:
  obtains (no_event) "received parse line = None"
      "handle_line handle_data_md parse line t = t"
  | (status_event) c where "received parse line = Some (StatusEvent c)"
      "handle_line handle_data_md parse line t = scroll (t\<lparr>status_html := spinner c\<rparr>)"
  | (text_event) c where "received parse line = Some (TextEvent c)"
      "handle_line handle_data_md parse line t =
         scroll (t\<lparr>text_var := text_var t @ c,
                    response := InnerHTML (formatMarkdown (text_var t @ c))\<rparr>)"
  | (done_event) "received parse line = Some DoneEvent"
      "handle_line handle_data_md parse line t =
         scroll (t\<lparr>status_class := ''status done'', status_html := ''Complete'',
                    response := InnerHTML (formatMarkdown (text_var t))\<rparr>)"
  | (other_event) "received parse line = Some OtherEvent"
      "handle_line handle_data_md parse line t = scroll t"
proof (cases "received parse line")
  case None
  with no_event show ?thesis by (simp add: handle_line_none)
next
  case (Some e)
  show ?thesis
  proof (cases e)
    case (StatusEvent c)
    with Some show ?thesis by (intro status_event [of c]) (simp_all add: handle_line_status)
  next
    case (TextEvent c)
    with Some show ?thesis by (intro text_event [of c]) (simp_all add: handle_line_text_md)
  next
    case DoneEvent
    with Some show ?thesis by (intro done_event) (simp_all add: handle_line_done_md)
  next
    case OtherEvent
    with Some show ?thesis by (intro other_event) (simp_all add: handle_line_other)
  qed
qed

lemma text_contents_append:
  "text_contents parse (xs @ ys) = text_contents parse xs @ text_contents parse ys"
  by (induction xs) (simp_all split: option.splits event.splits)


lemma status_events_append:
  "status_events parse (xs @ ys) = status_events parse xs @ status_events parse ys"
  by (simp add: status_events_def)

lemma text_var_handle_line_app:
  "text_var (handle_line handle_data_app parse line t) =
     text_var t @ concat (text_contents parse [line])"
  by (rule handle_line_app_cases [of parse line t]) (simp_all add: scroll_def)

lemma text_var_handle_line_md:
  "text_var (handle_line handle_data_md parse line t) =
     text_var t @ concat (text_contents parse [line])"
  by (rule handle_line_md_cases [of parse line t]) (simp_all add: scroll_def)

lemma text_var_handle_lines:
  assumes "h = handle_data_app \<or> h = handle_data_md"
  shows "text_var (handle_lines h parse ls t) = text_var t @ concat (text_contents parse ls)"
proof (induction ls rule: rev_induct)
  case Nil
  show ?case by simp
next
  case (snoc line ls)
  from assms have "text_var (handle_line h parse line (handle_lines h parse ls t)) =
      text_var (handle_lines h parse ls t) @ concat (text_contents parse [line])"
    using text_var_handle_line_app text_var_handle_line_md by blast
  with snoc show ?case
    by (simp add: handle_lines_append text_contents_append)
qed

lemma response_handle_lines_app:
  "response (handle_lines handle_data_app parse ls t) =
     (if text_contents parse ls = [] then response t
      else TextContent (text_var t @ concat (text_contents parse ls)))"
proof (induction ls rule: rev_induct)
  case Nil
  show ?case by simp
next
  case (snoc line ls)
  let ?t = "handle_lines handle_data_app parse ls t"
  have tv: "text_var ?t = text_var t @ concat (text_contents parse ls)"
    by (simp add: text_var_handle_lines)
  show ?case
    by (rule handle_line_app_cases [of parse line ?t])
      (simp_all add: snoc tv handle_lines_append text_contents_append scroll_def)
qed


lemma status_html_handle_line:
  assumes "h = handle_data_app \<or> h = handle_data_md"
  shows "status_html (handle_line h parse line t) =
     (if is_status_or_done (received parse line) then status_shown (received parse line)
      else status_html t)"
proof -
  have "status_html (handle_line handle_data_app parse line t) =
     (if is_status_or_done (received parse line) then status_shown (received parse line)
      else status_html t)"
    by (rule handle_line_app_cases [of parse line t]) (simp_all add: scroll_def)
  moreover have "status_html (handle_line handle_data_md parse line t) =
     (if is_status_or_done (received parse line) then status_shown (received parse line)
      else status_html t)"
    by (rule handle_line_md_cases [of parse line t]) (simp_all add: scroll_def)
  ultimately show ?thesis using assms by blast
qed

lemma status_html_handle_lines:
  assumes "h = handle_data_app \<or> h = handle_data_md"
  shows "status_html (handle_lines h parse ls t) =
     (if status_events parse ls = [] then status_html t
      else status_shown (last (status_events parse ls)))"
proof (induction ls rule: rev_induct)
  case Nil
  show ?case by (simp add: status_events_def)
next
  case (snoc line ls)
  have se: "status_events parse [line] = filter is_status_or_done [received parse line]"
    by (simp add: status_events_def)
  show ?case
    by (simp add: snoc handle_lines_append status_html_handle_line [OF assms]
        status_events_append se)
qed

lemma status_class_handle_line:
  assumes "h = handle_data_app \<or> h = handle_data_md"
  shows "status_class (handle_line h parse line t) =
     (if received parse line = Some DoneEvent then ''status done'' else status_class t)"
proof -
  have "status_class (handle_line handle_data_app parse line t) =
     (if received parse line = Some DoneEvent then ''status done'' else status_class t)"
    by (rule handle_line_app_cases [of parse line t]) (simp_all add: scroll_def)
  moreover have "status_class (handle_line handle_data_md parse line t) =
     (if received parse line = Some DoneEvent then ''status done'' else status_class t)"
    by (rule handle_line_md_cases [of parse line t]) (simp_all add: scroll_def)
  ultimately show ?thesis using assms by blast
qed

lemma status_class_stays_done:
  assumes "h = handle_data_app \<or> h = handle_data_md"
    and "status_class t = ''status done''"
  shows "status_class (handle_lines h parse ls t) = ''status done''"
  using assms(2)
  by (induction ls arbitrary: t) (simp_all add: status_class_handle_line [OF assms(1)])

section \<open>The loop over the reads\<close>

lemma read_loop_from:
  "\<forall>j. i \<le> j \<and> j < n \<longrightarrow> is_chunk (body j) \<Longrightarrow> \<not> is_chunk (body n) \<Longrightarrow> i \<le> n \<Longrightarrow>
   read_loop h p body i t =
     Some ((if body n = EndOfStream then Inr else Inl)
             (handle_lines h p (concat (map (\<lambda>j. chunk_lines (body j)) [i..<n])) t))"
proof (induction "n - i" arbitrary: i t)
  case 0
  then have "i = n" by simp
  with 0 show ?case
    by (subst read_loop.simps) (cases "body n"; simp)
next
  case (Suc k)
  then have lt: "i < n" by simp
  with Suc.prems obtain c where c: "body i = Chunk c"
    by (cases "body i") (auto dest: spec[of _ i])
  have "read_loop h p body (Suc i) (handle_chunk h p c t) =
     Some ((if body n = EndOfStream then Inr else Inl)
             (handle_lines h p (concat (map (\<lambda>j. chunk_lines (body j)) [Suc i..<n]))
                (handle_chunk h p c t)))"
    using Suc by (intro Suc.hyps) auto
  moreover have "[i..<n] = i # [Suc i..<n]"
    using lt by (simp add: upt_conv_Cons)
  ultimately show ?case
    using c by (subst read_loop.simps) (simp add: handle_chunk_def handle_lines_append)
qed

lemma send_begin_eq:
  "send_begin prompt p = (p\<lparr>busy := True, btn_disabled := True\<rparr>, new_turn prompt)"
  by (simp add: send_begin_def new_turn_def)

lemma send_result:
  assumes "ends_at body n"
  shows "send h parse prompt (Response body) p =
     Some (p\<lparr>busy := False, btn_disabled := False\<rparr>,
           (if body n = EndOfStream then complete else failed)
             (handle_lines h parse (lines_upto body n) (new_turn prompt)))"
proof -
  have "read_loop h parse body 0 (new_turn prompt) =
     Some ((if body n = EndOfStream then Inr else Inl)
             (handle_lines h parse (lines_upto body n) (new_turn prompt)))"
    unfolding lines_upto_def using assms
    by (intro read_loop_from) (auto simp: ends_at_def)
  then show ?thesis
    by (simp add: send_def send_begin_eq send_end_def)
qed

lemma send_fetch_throws:
  "send h parse prompt FetchThrows p =
     Some (p\<lparr>busy := False, btn_disabled := False\<rparr>, failed (new_turn prompt))"
  by (simp add: send_def send_begin_eq send_end_def)


section \<open>The sample inputs, evaluated\<close>

lemma received_status_line: "received sample_parse status_line = Some (StatusEvent ''Searching emails...'')"
  by (simp add: received_def sample_parse_def status_line_def event_of_def content_string_def)

lemma received_question_line: "received sample_parse question_line = Some OtherEvent"
  by (simp add: received_def sample_parse_def status_line_def question_line_def event_of_def content_string_def)

lemma received_text_line: "received sample_parse text_line = Some (TextEvent ''Found **3** emails'')"
  by (simp add: received_def sample_parse_def status_line_def question_line_def text_line_def event_of_def content_string_def)

lemma received_done_line: "received sample_parse done_line = Some DoneEvent"
  by (simp add: received_def sample_parse_def status_line_def question_line_def text_line_def done_line_def event_of_def content_string_def)

lemma received_oops: "received sample_parse ''data: {oops'' = None"
  by (simp add: received_def sample_parse_def status_line_def question_line_def text_line_def
      done_line_def more_text_line_def event_of_def content_string_def)

lemma received_empty: "received parse [] = None"
  by (simp add: received_def)

lemma sample_body_ends: "ends_at sample_body 2"
  by (simp add: ends_at_def sample_body_def less_Suc_eq numeral_2_eq_2)

lemma sample_lines:
  "lines_upto sample_body 2 = [status_line, [], ''data: {oops'', [], text_line, [], done_line, [], []]"
  by (simp add: lines_upto_def sample_body_def numeral_2_eq_2 status_line_def text_line_def done_line_def)

section \<open>The turn as created, and the two versions compared\<close>

lemma new_turn_fields:
  "text_var (new_turn prompt) = []" "response (new_turn prompt) = NoContent"
  "status_html (new_turn prompt) = spinner ''Thinking...''"
  "status_class (new_turn prompt) = ''status active''"
  by (simp_all add: new_turn_def send_begin_def scroll_def)

lemma sample_text_contents:
  "text_contents sample_parse (lines_upto sample_body 2) = [''Found **3** emails'']"
  by (simp add: sample_lines received_status_line received_text_line received_done_line
      received_oops received_empty)

lemma sample_status_events:
  "status_events sample_parse [status_line, done_line] =
     [Some (StatusEvent ''Searching emails...''), Some DoneEvent]"
  "status_events sample_parse [done_line, status_line] =
     [Some DoneEvent, Some (StatusEvent ''Searching emails...'')]"
  "status_events sample_parse [status_line] = [Some (StatusEvent ''Searching emails...'')]"
  "status_events sample_parse [done_line] = [Some DoneEvent]"
  by (simp_all add: status_events_def received_status_line received_done_line)







section \<open>The bodies with two text events and with a line cut in two, evaluated\<close>













section \<open>The invariant of the page\<close>

lemma one_turn_initial: "one_turn initial"
  by (simp add: one_turn_def initial_def)

lemma one_turn_on_submit: "one_turn a \<Longrightarrow> one_turn (on_submit trim a)"
  by (auto simp: one_turn_def on_submit_def Let_def send_begin_def)

lemma one_turn_on_keydown: "one_turn a \<Longrightarrow> one_turn (on_keydown trim key shiftKey a)"
  by (simp add: on_keydown_def one_turn_on_submit)

lemma one_turn_finish:
  "one_turn a \<Longrightarrow> i < length (in_flight a) \<Longrightarrow> one_turn (finish i t a)"
  by (auto simp: one_turn_def finish_def send_end_def)

lemma one_turn_update:
  "one_turn a \<Longrightarrow> one_turn (a\<lparr>in_flight := (in_flight a)[i := x]\<rparr>)"
  by (simp add: one_turn_def)

lemma one_turn_settle_fetch: "one_turn a \<Longrightarrow> one_turn (settle_fetch i ok a)"
  by (auto simp: settle_fetch_def one_turn_finish one_turn_update split: prod.splits await.splits)

lemma one_turn_settle_read: "one_turn a \<Longrightarrow> one_turn (settle_read h parse i r a)"
  by (auto simp: settle_read_def one_turn_finish one_turn_update
      split: prod.splits await.splits read_result.splits)

lemma one_turn_step: "one_turn a \<Longrightarrow> one_turn (step h parse trim a ev)"
  by (cases ev)
    (simp_all add: one_turn_on_submit one_turn_on_keydown one_turn_settle_fetch
      one_turn_settle_read, simp add: one_turn_def)

lemma one_turn_foldl: "one_turn a \<Longrightarrow> one_turn (foldl (step h parse trim) a evs)"
  by (induction evs arbitrary: a) (simp_all add: one_turn_step)

lemma one_turn_run: "one_turn (run h parse trim evs)"
  by (simp add: run_def one_turn_foldl one_turn_initial)

lemma sample_run:
  "run handle_data_app sample_parse (\<lambda>s. s) [Input ''hello'', Submit] =
     \<lparr>the_page = \<lparr>busy = True, btn_disabled = True, input_value = []\<rparr>,
      in_flight = [(AwaitFetch, new_turn ''hello'')], finished = []\<rparr>"
  by (simp add: run_def initial_def on_submit_def send_begin_eq)

section \<open>The markup that formatMarkdown writes\<close>

lemma strip_tag_Some:
  assumes "strip_tag x = Some rest"
  shows "\<exists>t. t \<in> set formatter_tags \<and> x = t @ rest"
proof -
  from assms obtain t ts where f: "filter (\<lambda>t. prefix t x) formatter_tags = t # ts"
    and r: "rest = drop (length t) x"
    by (auto simp: strip_tag_def split: list.splits)
  from f have "t \<in> set (filter (\<lambda>t. prefix t x) formatter_tags)" by simp
  then have "t \<in> set formatter_tags" "prefix t x" by simp_all
  with r show ?thesis by (auto simp: prefix_def)
qed

lemma only_tag:
  assumes "t \<in> set formatter_tags"
  shows "only_formatter_tags (t @ s) = only_formatter_tags s"
  using assms by (auto simp: formatter_tags_def strip_tag_def)

lemma only_text:
  "no_angle u \<Longrightarrow> only_formatter_tags (u @ s) = only_formatter_tags s"
  by (induction u) (auto simp: no_angle_def)

lemma only_Cons:
  "c \<noteq> CHR ''<'' \<Longrightarrow> c \<noteq> CHR ''>'' \<Longrightarrow> only_formatter_tags (c # s) = only_formatter_tags s"
  by simp

lemma only_formatter_tags_cases:
  assumes "only_formatter_tags (c # s)"
  obtains (tag) t rest where "t \<in> set formatter_tags" "c # s = t @ rest" "only_formatter_tags rest"
  | (char) "c \<noteq> CHR ''<''" "c \<noteq> CHR ''>''" "only_formatter_tags s"
proof (cases "c = CHR ''<''")
  case True
  with assms obtain rest where r: "strip_tag (c # s) = Some rest" "only_formatter_tags rest"
    by (auto split: option.splits)
  from strip_tag_Some [OF r(1)] r(2) tag show ?thesis by blast
next
  case False
  with assms char show ?thesis by simp
qed

lemma replace_char_append:
  "replace_char c rep (xs @ ys) = replace_char c rep xs @ replace_char c rep ys"
  by (simp add: replace_char_def)

lemma replace_char_Cons:
  "replace_char c rep (x # xs) = (if x = c then rep else [x]) @ replace_char c rep xs"
  by (simp add: replace_char_def)

lemma replace_char_id: "c \<notin> set s \<Longrightarrow> replace_char c rep s = s"
  by (induction s) (auto simp: replace_char_def)

lemma escapeHtml_Cons: "escapeHtml (x # xs) = escape_char x @ escapeHtml xs"
proof -
  have "replace_char (CHR ''>'') ''&gt;'' (replace_char (CHR ''<'') ''&lt;''
          (if x = CHR ''&'' then ''&amp;'' else [x])) = escape_char x"
    by (simp add: replace_char_def escape_char_def)
  then show ?thesis
    unfolding escapeHtml_def replace_char_Cons [of "CHR ''&''"] replace_char_append
    by simp
qed

lemma escapeHtml_chars: "escapeHtml s = concat (map escape_char s)"
proof (induction s)
  case Nil
  show ?case by (simp add: escapeHtml_def replace_char_def)
next
  case (Cons x xs)
  then show ?case by (simp add: escapeHtml_Cons)
qed

lemma no_angle_escape_char: "no_angle (escape_char c)"
  by (simp add: escape_char_def no_angle_def)

lemma no_angle_escapeHtml: "no_angle (escapeHtml s)"
  unfolding escapeHtml_chars using no_angle_escape_char
  by (induction s) (auto simp: no_angle_def)

lemma match_bold_parts:
  assumes "match_bold s = Some (inner, rest)"
  shows "set inner \<subseteq> set s" and "set rest \<subseteq> set s"
proof -
  let ?body = "drop 2 s"
  from assms have i: "inner = takeWhile (\<lambda>c. c \<noteq> CHR ''*'') ?body"
    and r: "rest = drop 2 (dropWhile (\<lambda>c. c \<noteq> CHR ''*'') ?body)"
    by (auto simp: match_bold_def Let_def split: if_splits)
  have "set inner \<subseteq> set ?body"
    unfolding i by (auto dest: set_takeWhileD)
  also have b: "set ?body \<subseteq> set s"
    by (rule set_drop_subset)
  finally show "set inner \<subseteq> set s" .
  have "set rest \<subseteq> set (dropWhile (\<lambda>c. c \<noteq> CHR ''*'') ?body)"
    unfolding r by (rule set_drop_subset)
  also have "\<dots> \<subseteq> set ?body"
    by (auto dest: set_dropWhileD)
  finally show "set rest \<subseteq> set s"
    using b by blast
qed

lemma only_bold: "no_angle x \<Longrightarrow> only_formatter_tags (bold x)"
proof (induction x rule: bold.induct)
  case 1
  show ?case by simp
next
  case (2 c cs)
  show ?case
  proof (cases "match_bold (c # cs)")
    case None
    from "2.prems" have c: "c \<noteq> CHR ''<''" "c \<noteq> CHR ''>''" and n: "no_angle cs"
      by (auto simp: no_angle_def)
    from "2.IH"(1) [OF None n] have "only_formatter_tags (c # bold cs)"
      using c by simp
    with None show ?thesis by simp
  next
    case (Some m)
    obtain inner rest where m: "m = (inner, rest)" by (cases m)
    from match_bold_parts [of "c # cs" inner rest] Some m "2.prems"
    have ni: "no_angle inner" and nr: "no_angle rest"
      by (auto simp: no_angle_def)
    have t1: "''<strong>'' \<in> set formatter_tags" and t2: "''</strong>'' \<in> set formatter_tags"
      by (simp_all add: formatter_tags_def)
    have "only_formatter_tags (bold rest)"
      using "2.IH"(2) [OF Some m [symmetric] nr] .
    then have "only_formatter_tags (''<strong>'' @ inner @ ''</strong>'' @ bold rest)"
      by (simp only: only_tag [OF t1] only_tag [OF t2] only_text [OF ni])
    moreover have "bold (c # cs) = ''<strong>'' @ inner @ ''</strong>'' @ bold rest"
      using Some m by simp
    ultimately show ?thesis by (simp only:)
  qed
qed

lemma tag_chars:
  assumes "t \<in> set formatter_tags"
  shows "CHR 0x0A \<notin> set t" and "CHR 0xE2 \<notin> set t" and "t \<noteq> []"
  using assms by (auto simp: formatter_tags_def)

lemma only_br:
  "only_formatter_tags x \<Longrightarrow> only_formatter_tags (replace_char (CHR 0x0A) ''<br>'' x)"
proof (induction "length x" arbitrary: x rule: less_induct)
  case less
  show ?case
  proof (cases x)
    case Nil
    then show ?thesis by (simp add: replace_char_def)
  next
    case (Cons c s)
    from less.prems Cons have "only_formatter_tags (c # s)" by simp
    then show ?thesis
    proof (cases rule: only_formatter_tags_cases)
      case (tag t rest)
      from tag(2) tag_chars(3) [OF tag(1)] Cons have "length rest < length x"
        by (metis length_append length_greater_0_conv less_add_same_cancel2)
      from less.hyps [OF this tag(3)]
      have "only_formatter_tags (t @ replace_char (CHR 0x0A) ''<br>'' rest)"
        by (simp only: only_tag [OF tag(1)])
      then show ?thesis
        by (simp only: Cons tag(2) replace_char_append replace_char_id [OF tag_chars(1) [OF tag(1)]])
    next
      case char
      have b: "''<br>'' \<in> set formatter_tags"
        by (simp add: formatter_tags_def)
      from less.hyps [of s] char(3) Cons
      have r: "only_formatter_tags (replace_char (CHR 0x0A) ''<br>'' s)" by simp
      show ?thesis
      proof (cases "c = CHR 0x0A")
        case True
        then have "replace_char (CHR 0x0A) ''<br>'' (c # s) =
            ''<br>'' @ replace_char (CHR 0x0A) ''<br>'' s"
          by (simp add: replace_char_Cons)
        with r show ?thesis
          by (simp only: Cons only_tag [OF b])
      next
        case False
        with r char show ?thesis
          by (simp add: Cons replace_char_Cons)
      qed
    qed
  qed
qed

lemma replace_all_skip:
  assumes "p0 \<notin> set t"
  shows "replace_all (p0 # ps) rep (t @ y) = t @ replace_all (p0 # ps) rep y"
  using assms by (induction t) auto

lemma only_replace_all:
  assumes na: "no_angle (p0 # ps)"
    and p0: "\<And>t. t \<in> set formatter_tags \<Longrightarrow> p0 \<notin> set t"
    and rep: "\<And>y. only_formatter_tags (rep @ y) = only_formatter_tags y"
  shows "only_formatter_tags x \<Longrightarrow> only_formatter_tags (replace_all (p0 # ps) rep x)"
proof (induction "length x" arbitrary: x rule: less_induct)
  case less
  show ?case
  proof (cases x)
    case Nil
    then show ?thesis by simp
  next
    case (Cons c s)
    from less.prems Cons have "only_formatter_tags (c # s)" by simp
    then show ?thesis
    proof (cases rule: only_formatter_tags_cases)
      case (tag t rest)
      from tag(2) tag_chars(3) [OF tag(1)] Cons have "length rest < length x"
        by (metis length_append length_greater_0_conv less_add_same_cancel2)
      from less.hyps [OF this tag(3)]
      have "only_formatter_tags (t @ replace_all (p0 # ps) rep rest)"
        by (simp only: only_tag [OF tag(1)])
      then show ?thesis
        by (simp only: Cons tag(2) replace_all_skip [OF p0 [OF tag(1)]])
    next
      case char
      show ?thesis
      proof (cases "prefix (p0 # ps) (c # s)")
        case True
        then obtain s' where s': "c # s = (p0 # ps) @ s'"
          by (auto simp: prefix_def)
        then have d: "drop (length (p0 # ps) - 1) s = s'"
          by simp
        from less.prems Cons s' have "only_formatter_tags ((p0 # ps) @ s')" by simp
        then have o: "only_formatter_tags s'"
          by (simp only: only_text [OF na])
        from s' Cons have "length s' < length x" by simp
        from less.hyps [OF this o] have "only_formatter_tags (rep @ replace_all (p0 # ps) rep s')"
          by (simp only: rep)
        moreover have "replace_all (p0 # ps) rep (c # s) = rep @ replace_all (p0 # ps) rep s'"
          using True d by simp
        ultimately show ?thesis by (simp only: Cons)
      next
        case False
        from less.hyps [of s] char(3) Cons
        have "only_formatter_tags (replace_all (p0 # ps) rep s)" by simp
        then have "only_formatter_tags (c # replace_all (p0 # ps) rep s)"
          using char by simp
        moreover have "replace_all (p0 # ps) rep (c # s) = c # replace_all (p0 # ps) rep s"
          using False by auto
        ultimately show ?thesis by (simp only: Cons)
      qed
    qed
  qed
qed

lemma only_bullet_span: "only_formatter_tags (bullet_span @ y) = only_formatter_tags y"
proof -
  have t1: \<open>''<span style="color: #60a5fa;">'' \<in> set formatter_tags\<close>
    and t2: "''</span>'' \<in> set formatter_tags"
    by (simp_all add: formatter_tags_def)
  have n: "no_angle bullet"
    by (simp add: bullet_def no_angle_def)
  show ?thesis
    unfolding bullet_span_def append_assoc
    by (simp only: only_tag [OF t1] only_text [OF n] only_tag [OF t2])
qed

lemma only_warning_span: "only_formatter_tags (warning_span @ y) = only_formatter_tags y"
proof -
  have t1: \<open>''<span style="color: #fbbf24;">'' \<in> set formatter_tags\<close>
    and t2: "''</span>'' \<in> set formatter_tags"
    by (simp_all add: formatter_tags_def)
  have n: "no_angle warning_sign"
    by (simp add: warning_sign_def no_angle_def)
  show ?thesis
    unfolding warning_span_def append_assoc
    by (simp only: only_tag [OF t1] only_text [OF n] only_tag [OF t2])
qed

lemma only_formatMarkdown: "only_formatter_tags (formatMarkdown s)"
proof -
  have b: "no_angle (CHR 0xE2 # [CHR 0x80, CHR 0xA2])"
    and w: "no_angle (CHR 0xE2 # [CHR 0x9A, CHR 0xA0, CHR 0xEF, CHR 0xB8, CHR 0x8F])"
    by (simp_all add: no_angle_def)
  have 1: "only_formatter_tags (bold (escapeHtml s))"
    by (rule only_bold) (rule no_angle_escapeHtml)
  have 2: "only_formatter_tags (replace_char (CHR 0x0A) ''<br>'' (bold (escapeHtml s)))"
    using 1 by (rule only_br)
  have 3: "only_formatter_tags (replace_all bullet bullet_span
      (replace_char (CHR 0x0A) ''<br>'' (bold (escapeHtml s))))"
    unfolding bullet_def
  proof (rule only_replace_all [OF b _ _ 2])
    fix t :: string
    assume "t \<in> set formatter_tags"
    then show "CHR 0xE2 \<notin> set t" by (rule tag_chars(2))
  next
    fix y
    show "only_formatter_tags (bullet_span @ y) = only_formatter_tags y"
      by (rule only_bullet_span)
  qed
  show ?thesis
    unfolding formatMarkdown_def warning_sign_def
  proof (rule only_replace_all [OF w _ _ 3])
    fix t :: string
    assume "t \<in> set formatter_tags"
    then show "CHR 0xE2 \<notin> set t" by (rule tag_chars(2))
  next
    fix y
    show "only_formatter_tags (warning_span @ y) = only_formatter_tags y"
      by (rule only_warning_span)
  qed
qed

lemma sample_format:
  "formatMarkdown ''<img src=x>**hi**'' = ''&lt;img src=x&gt;<strong>hi</strong>''"
  by code_simp

section \<open>The executor\<close>











section \<open>Properties of the client\<close>

text \<open>
  Claim C5. Every call of \<^verbatim>\<open>send\<close> whose request fails, or whose body ends or throws at
  some read, returns with the page unlocked: \<^verbatim>\<open>busy\<close> is false and the button is enabled.
  The status is the error message when \<^verbatim>\<open>fetch\<close> or a read threw, and \<^verbatim>\<open>Complete\<close> when
  the stream ended, whether or not a done event was among its lines. This holds for any
  body of the loop and any parser.
\<close>

theorem send_unlocks:
  "(net = FetchThrows \<or> (net = Response body \<and> ends_at body n \<and> body n = ReadThrows) \<longrightarrow>
      (\<exists>t. send h parse prompt net p = Some (p\<lparr>busy := False, btn_disabled := False\<rparr>, t) \<and>
           status_class t = ''status error'' \<and>
           status_html t = ''Failed to connect. Is the backend running?'')) \<and>
   (net = Response body \<and> ends_at body n \<and> body n = EndOfStream \<longrightarrow>
      (\<exists>t. send h parse prompt net p = Some (p\<lparr>busy := False, btn_disabled := False\<rparr>, t) \<and>
           status_class t = ''status done'' \<and> status_html t = ''Complete''))"
  by (auto simp: send_result send_fetch_throws failed_def complete_def)

theorem send_unlocks_witness:
  "ends_at sample_body 2 \<and> sample_body 2 = EndOfStream \<and>
   (\<exists>t. send handle_data_md sample_parse ''hello'' (Response sample_body)
          \<lparr>busy = False, btn_disabled = False, input_value = []\<rparr> =
        Some (\<lparr>busy = False, btn_disabled = False, input_value = []\<rparr>, t) \<and>
        status_class t = ''status done'' \<and> status_html t = ''Complete'') \<and>
   (\<exists>t. send handle_data_md sample_parse ''hello'' FetchThrows
          \<lparr>busy = False, btn_disabled = False, input_value = []\<rparr> =
        Some (\<lparr>busy = False, btn_disabled = False, input_value = []\<rparr>, t) \<and>
        status_class t = ''status error'' \<and>
        status_html t = ''Failed to connect. Is the backend running?'') \<and>
   ends_at (\<lambda>i. ReadThrows) 0 \<and>
   (\<exists>t. send handle_data_md sample_parse ''hello'' (Response (\<lambda>i. ReadThrows))
          \<lparr>busy = False, btn_disabled = False, input_value = []\<rparr> =
        Some (\<lparr>busy = False, btn_disabled = False, input_value = []\<rparr>, t) \<and>
        status_class t = ''status error'' \<and>
        status_html t = ''Failed to connect. Is the backend running?'')"
proof -
  have e: "sample_body 2 = EndOfStream"
    by (simp add: sample_body_def)
  have r: "ends_at (\<lambda>i. ReadThrows) 0"
    by (simp add: ends_at_def)
  show ?thesis
    using send_unlocks [of "Response sample_body" sample_body 2 handle_data_md sample_parse "''hello''"
        "\<lparr>busy = False, btn_disabled = False, input_value = []\<rparr>"]
      send_unlocks [of FetchThrows sample_body 2 handle_data_md sample_parse "''hello''"
        "\<lparr>busy = False, btn_disabled = False, input_value = []\<rparr>"]
      send_unlocks [of "Response (\<lambda>i. ReadThrows)" "\<lambda>i. ReadThrows" 0 handle_data_md sample_parse
        "''hello''" "\<lparr>busy = False, btn_disabled = False, input_value = []\<rparr>"]
      sample_body_ends e r
    by simp
qed

text \<open>
  Claim C10. A line without the prefix \<^verbatim>\<open>data: \<close>, or whose payload \<^verbatim>\<open>JSON.parse\<close> rejects,
  leaves the turn as it was (display, accumulated text and scroll count), the lines
  after it are handled as if it were absent, and the call of \<^verbatim>\<open>send\<close> still returns when
  the body ends.
\<close>

theorem malformed_line_skipped:
  assumes "h = handle_data_app \<or> h = handle_data_md"
    and "\<not> prefix ''data: '' line \<or> parse (drop 6 line) = None"
  shows "handle_line h parse line t = t \<and>
         handle_lines h parse (pre @ line # post) t = handle_lines h parse (pre @ post) t \<and>
         (ends_at body n \<longrightarrow> send h parse prompt (Response body) p \<noteq> None)"
proof -
  from assms(2) have "received parse line = None"
    by (auto simp: received_def)
  then have "\<And>t. handle_line h parse line t = t"
    using assms(1) by (rule handle_line_none)
  then show ?thesis
    by (simp add: handle_lines_append send_result)
qed

theorem malformed_line_skipped_witness:
  "\<not> prefix ''data: '' ''event: ping'' \<and>
   sample_parse (drop 6 ''data: {oops'') = None \<and>
   handle_line handle_data_app sample_parse ''event: ping'' (new_turn ''hello'') = new_turn ''hello'' \<and>
   handle_lines handle_data_md sample_parse ([status_line] @ ''data: {oops'' # [text_line]) (new_turn ''hello'') =
     handle_lines handle_data_md sample_parse ([status_line] @ [text_line]) (new_turn ''hello'') \<and>
   send handle_data_md sample_parse ''hello'' (Response sample_body)
     \<lparr>busy = False, btn_disabled = False, input_value = []\<rparr> \<noteq> None"
proof -
  have a: "\<not> prefix ''data: '' ''event: ping''"
    by simp
  have b: "sample_parse (drop 6 ''data: {oops'') = None"
    by (simp add: sample_parse_def status_line_def question_line_def text_line_def done_line_def
        more_text_line_def)
  show ?thesis
    using malformed_line_skipped [where h = handle_data_app and line = "''event: ping''"
        and parse = sample_parse and t = "new_turn ''hello''"]
      malformed_line_skipped [where h = handle_data_md and line = "''data: {oops''"
        and parse = sample_parse and pre = "[status_line]" and post = "[text_line]"
        and t = "new_turn ''hello''" and body = sample_body and n = 2 and prompt = "''hello''"
        and p = "\<lparr>busy = False, btn_disabled = False, input_value = []\<rparr>"]
      sample_body_ends a b
    by blast
qed

text \<open>
  Claim C1, at the input where the client departs from it. A line that carries an event
  of type \<^verbatim>\<open>question\<close> runs no branch of the loop: both versions of the client only call
  \<^verbatim>\<open>scroll()\<close>; the status, the response and the accumulated text stay as they were, so
  the question is not shown.
\<close>

theorem question_event_not_rendered:
  assumes "prefix ''data: '' line"
    and "parse (drop 6 line) = Some data"
    and "get_prop data ''type'' = Inr (JString ''question'')"
  shows "handle_line handle_data_app parse line t = t\<lparr>scrolled := Suc (scrolled t)\<rparr> \<and>
         handle_line handle_data_md parse line t = t\<lparr>scrolled := Suc (scrolled t)\<rparr>"
  using assms by (simp add: handle_line_def handle_data_app_def handle_data_md_def scroll_def)

theorem question_event_not_rendered_witness:
  "prefix ''data: '' question_line \<and>
   sample_parse (drop 6 question_line) =
     Some (JObject [(''type'', JString ''question''), (''content'', JString ''What is the address?'')]) \<and>
   get_prop (JObject [(''type'', JString ''question''), (''content'', JString ''What is the address?'')]) ''type'' =
     Inr (JString ''question'') \<and>
   handle_line handle_data_app sample_parse question_line (new_turn ''send email to sarah'') =
     (new_turn ''send email to sarah'')\<lparr>scrolled := Suc (scrolled (new_turn ''send email to sarah''))\<rparr> \<and>
   handle_line handle_data_md sample_parse question_line (new_turn ''send email to sarah'') =
     (new_turn ''send email to sarah'')\<lparr>scrolled := Suc (scrolled (new_turn ''send email to sarah''))\<rparr>"
proof -
  have a: "prefix ''data: '' question_line"
    by (simp add: question_line_def)
  have b: "sample_parse (drop 6 question_line) =
     Some (JObject [(''type'', JString ''question''), (''content'', JString ''What is the address?'')])"
    by (simp add: sample_parse_def status_line_def question_line_def)
  have c: "get_prop (JObject [(''type'', JString ''question''), (''content'', JString ''What is the address?'')]) ''type'' =
     Inr (JString ''question'')"
    by simp
  show ?thesis
    using question_event_not_rendered [where line = question_line and parse = sample_parse
        and data = "JObject [(''type'', JString ''question''), (''content'', JString ''What is the address?'')]"
        and t = "new_turn ''send email to sarah''"] a b c
    by blast
qed




text \<open>
  Claim C6 as stated fails after a done event: on the lines of a status event followed by
  a done event, the status shown is \<^verbatim>\<open>Complete\<close>, not the content of the most recent status
  event.
\<close>

theorem status_after_done_counterexample:
  "received sample_parse status_line = Some (StatusEvent ''Searching emails...'') \<and>
   received sample_parse done_line = Some DoneEvent \<and>
   status_html (handle_lines handle_data_app sample_parse [status_line, done_line] (new_turn ''hello'')) =
     ''Complete'' \<and>
   status_html (handle_lines handle_data_md sample_parse [status_line, done_line] (new_turn ''hello'')) =
     ''Complete'' \<and>
   ''Complete'' \<noteq> spinner ''Searching emails...''"
  by (simp add: status_html_handle_lines sample_status_events received_status_line
      received_done_line spinner_def del: handle_lines.simps)

text \<open>
  Claim C6, amended. The last writer wins among the status and the done events: a status
  event replaces the status shown by the spinner and its content, a done event replaces
  it by \<^verbatim>\<open>Complete\<close>, and after any sequence of lines the status shown is that of the most
  recent status or done event, or the initial \<^verbatim>\<open>Thinking...\<close> when there was none.
\<close>

theorem status_last_writer_wins:
  assumes "h = handle_data_app \<or> h = handle_data_md"
  shows "(received parse line = Some (StatusEvent c) \<longrightarrow>
            status_html (handle_line h parse line t) = spinner c) \<and>
         (received parse line = Some DoneEvent \<longrightarrow>
            status_html (handle_line h parse line t) = ''Complete'') \<and>
         status_html (handle_lines h parse ls (new_turn prompt)) =
           (if status_events parse ls = [] then spinner ''Thinking...''
            else status_shown (last (status_events parse ls)))"
  by (simp add: status_html_handle_line [OF assms] status_html_handle_lines [OF assms]
      new_turn_fields)

theorem status_last_writer_wins_witness:
  "received sample_parse status_line = Some (StatusEvent ''Searching emails...'') \<and>
   status_html (handle_line handle_data_app sample_parse status_line (new_turn ''hello'')) =
     spinner ''Searching emails...'' \<and>
   received sample_parse done_line = Some DoneEvent \<and>
   status_html (handle_line handle_data_md sample_parse done_line (new_turn ''hello'')) = ''Complete'' \<and>
   status_html (handle_lines handle_data_app sample_parse [done_line, status_line] (new_turn ''hello'')) =
     spinner ''Searching emails...'' \<and>
   status_html (handle_lines handle_data_app sample_parse [] (new_turn ''hello'')) =
     spinner ''Thinking...''"
  using status_last_writer_wins [where h = handle_data_app and parse = sample_parse
      and line = status_line and c = "''Searching emails...''" and t = "new_turn ''hello''"
      and ls = "[done_line, status_line]" and prompt = "''hello''"]
    status_last_writer_wins [where h = handle_data_md and parse = sample_parse
      and line = done_line and t = "new_turn ''hello''" and ls = "[]" and prompt = "''hello''"]
    status_last_writer_wins [where h = handle_data_app and parse = sample_parse
      and ls = "[]" and prompt = "''hello''"]
    received_status_line received_done_line
  by (simp add: sample_status_events status_events_def del: handle_lines.simps)

text \<open>
  Claim C4 as stated fails: the loop does not stop at a done event. A text event after it
  is appended to the answer and displayed, and a status event after it replaces the
  status shown.
\<close>

theorem events_after_done_counterexample:
  "received sample_parse done_line = Some DoneEvent \<and>
   text_var (handle_lines handle_data_app sample_parse [done_line] (new_turn ''hello'')) = [] \<and>
   text_var (handle_lines handle_data_app sample_parse [done_line, text_line] (new_turn ''hello'')) =
     ''Found **3** emails'' \<and>
   response (handle_lines handle_data_app sample_parse [done_line, text_line] (new_turn ''hello'')) =
     TextContent ''Found **3** emails'' \<and>
   text_var (handle_lines handle_data_md sample_parse [done_line, text_line] (new_turn ''hello'')) =
     ''Found **3** emails'' \<and>
   status_html (handle_lines handle_data_app sample_parse [done_line] (new_turn ''hello'')) =
     ''Complete'' \<and>
   status_html (handle_lines handle_data_app sample_parse [done_line, status_line] (new_turn ''hello'')) =
     spinner ''Searching emails...'' \<and>
   status_html (handle_lines handle_data_md sample_parse [done_line, status_line] (new_turn ''hello'')) =
     spinner ''Searching emails...'' \<and>
   spinner ''Searching emails...'' \<noteq> ''Complete''"
  by (simp add: status_html_handle_lines text_var_handle_lines response_handle_lines_app
      sample_status_events received_done_line received_text_line received_status_line
      new_turn_fields spinner_def del: handle_lines.simps)

text \<open>
  Claim C4, amended. A done event sets the status to \<^verbatim>\<open>Complete\<close> with the class
  \<^verbatim>\<open>status done\<close> and leaves the accumulated answer as it is. The lines after it are
  still handled: the class stays \<^verbatim>\<open>status done\<close>, the text events among them are appended
  to the answer, the status shown is that of the last status or done event among them
  (\<^verbatim>\<open>Complete\<close> when there is none), and the end of the stream sets \<^verbatim>\<open>Complete\<close> again.
\<close>

theorem done_event_marks_complete:
  assumes "h = handle_data_app \<or> h = handle_data_md"
    and "received parse line = Some DoneEvent"
  shows "status_class (handle_line h parse line t) = ''status done'' \<and>
         status_html (handle_line h parse line t) = ''Complete'' \<and>
         text_var (handle_line h parse line t) = text_var t \<and>
         status_class (handle_lines h parse post (handle_line h parse line t)) = ''status done'' \<and>
         text_var (handle_lines h parse post (handle_line h parse line t)) =
           text_var t @ concat (text_contents parse post) \<and>
         status_html (handle_lines h parse post (handle_line h parse line t)) =
           (if status_events parse post = [] then ''Complete''
            else status_shown (last (status_events parse post))) \<and>
         status_html (complete (handle_lines h parse post (handle_line h parse line t))) = ''Complete''"
proof -
  let ?t = "handle_line h parse line t"
  have c: "status_class ?t = ''status done''"
    by (simp add: status_class_handle_line [OF assms(1)] assms(2))
  have s: "status_html ?t = ''Complete''"
    by (simp add: status_html_handle_line [OF assms(1)] assms(2))
  have "text_var ?t = text_var t @ concat (text_contents parse [line])"
    using assms(1) text_var_handle_line_app text_var_handle_line_md by blast
  then have x: "text_var ?t = text_var t"
    by (simp add: assms(2))
  show ?thesis
    by (simp add: c s x status_class_stays_done [OF assms(1) c]
        text_var_handle_lines [OF assms(1)] status_html_handle_lines [OF assms(1)] complete_def)
qed

theorem done_event_marks_complete_witness:
  "received sample_parse done_line = Some DoneEvent \<and>
   status_class (handle_line handle_data_md sample_parse done_line (new_turn ''hello'')) = ''status done'' \<and>
   status_html (handle_line handle_data_md sample_parse done_line (new_turn ''hello'')) = ''Complete'' \<and>
   status_class (handle_lines handle_data_md sample_parse [text_line, status_line]
      (handle_line handle_data_md sample_parse done_line (new_turn ''hello''))) = ''status done'' \<and>
   text_var (handle_lines handle_data_md sample_parse [text_line, status_line]
      (handle_line handle_data_md sample_parse done_line (new_turn ''hello''))) =
     text_var (new_turn ''hello'') @ concat (text_contents sample_parse [text_line, status_line])"
  using done_event_marks_complete [where h = handle_data_md and parse = sample_parse
      and line = done_line and t = "new_turn ''hello''" and post = "[text_line, status_line]"]
    received_done_line
  by (simp del: handle_lines.simps)



text \<open>
  Claim C3. After any sequence of events on the page (submits, key presses, edits of the
  field, and settlements of the \<^verbatim>\<open>await\<close>s of suspended calls, in any order) at most one call
  of \<^verbatim>\<open>send\<close> is in flight, and \<^verbatim>\<open>busy\<close> is set exactly while one is. While \<^verbatim>\<open>busy\<close> is set,
  the listener of \<^verbatim>\<open>submit\<close> and the listener of \<^verbatim>\<open>keydown\<close> leave the application as it
  is: no second call of \<^verbatim>\<open>send\<close> starts.
\<close>

theorem at_most_one_turn_in_flight:
  "length (in_flight (run h parse trim evs)) \<le> 1 \<and>
   (busy (the_page (run h parse trim evs)) = (in_flight (run h parse trim evs) \<noteq> [])) \<and>
   (busy (the_page a) \<longrightarrow> on_submit trim a = a \<and> on_keydown trim key shiftKey a = a)"
  using one_turn_run [of h parse trim evs]
  by (simp add: one_turn_def on_submit_def on_keydown_def Let_def)

theorem at_most_one_turn_in_flight_witness:
  "busy (the_page (run handle_data_app sample_parse (\<lambda>s. s) [Input ''hello'', Submit])) \<and>
   in_flight (run handle_data_app sample_parse (\<lambda>s. s) [Input ''hello'', Submit]) =
     [(AwaitFetch, new_turn ''hello'')] \<and>
   run handle_data_app sample_parse (\<lambda>s. s) [Input ''hello'', Submit, Input ''again'', Submit] =
     run handle_data_app sample_parse (\<lambda>s. s) [Input ''hello'', Submit, Input ''again''] \<and>
   run handle_data_app sample_parse (\<lambda>s. s)
       [Input ''hello'', Submit, Input ''again'', KeyDown ''Enter'' False] =
     run handle_data_app sample_parse (\<lambda>s. s) [Input ''hello'', Submit, Input ''again'']"
proof -
  let ?a = "run handle_data_app sample_parse (\<lambda>s. s) [Input ''hello'', Submit, Input ''again'']"
  have r: "?a = \<lparr>the_page = \<lparr>busy = True, btn_disabled = True, input_value = ''again''\<rparr>,
      in_flight = [(AwaitFetch, new_turn ''hello'')], finished = []\<rparr>"
    by (simp add: run_def initial_def on_submit_def send_begin_eq)
  then have b: "busy (the_page ?a)" by simp
  have s: "run handle_data_app sample_parse (\<lambda>s. s) [Input ''hello'', Submit, Input ''again'', Submit] =
      on_submit (\<lambda>s. s) ?a"
    by (simp add: run_def)
  have k: "run handle_data_app sample_parse (\<lambda>s. s)
       [Input ''hello'', Submit, Input ''again'', KeyDown ''Enter'' False] =
      on_keydown (\<lambda>s. s) ''Enter'' False ?a"
    by (simp add: run_def)
  show ?thesis
    using at_most_one_turn_in_flight [of handle_data_app sample_parse "\<lambda>s. s"
        "[Input ''hello'', Submit]" ?a "''Enter''" False] b
    unfolding s k by (simp add: sample_run)
qed

section \<open>Properties of formatMarkdown\<close>

text \<open>
  Claim C8. \<^verbatim>\<open>formatMarkdown(s)\<close> first escapes every \<^verbatim>\<open>&\<close>, \<^verbatim>\<open><\<close> and \<^verbatim>\<open>>\<close> of \<open>s\<close>, character by
  character, so that the escaped string has no \<^verbatim>\<open><\<close> and no \<^verbatim>\<open>>\<close>; the formatting runs on
  the escaped string; and in the result every \<^verbatim>\<open><\<close> starts, and every \<^verbatim>\<open>>\<close> ends, one of the
  tags that the formatter writes (\<^verbatim>\<open><strong>\<close>, \<^verbatim>\<open></strong>\<close>, \<^verbatim>\<open><br>\<close>, the two styled \<^verbatim>\<open><span>\<close>
  tags and \<^verbatim>\<open></span>\<close>): no markup comes from \<open>s\<close>.
\<close>

theorem formatMarkdown_escapes_first:
  "escapeHtml s = concat (map escape_char s) \<and>
   no_angle (escapeHtml s) \<and>
   formatMarkdown s =
     replace_all warning_sign warning_span
       (replace_all bullet bullet_span
          (replace_char (CHR 0x0A) ''<br>'' (bold (concat (map escape_char s))))) \<and>
   only_formatter_tags (formatMarkdown s)"
proof (intro conjI)
  show "escapeHtml s = concat (map escape_char s)"
    by (rule escapeHtml_chars)
  show "no_angle (escapeHtml s)"
    by (rule no_angle_escapeHtml)
  show "formatMarkdown s =
     replace_all warning_sign warning_span
       (replace_all bullet bullet_span
          (replace_char (CHR 0x0A) ''<br>'' (bold (concat (map escape_char s)))))"
    by (simp only: formatMarkdown_def escapeHtml_chars)
  show "only_formatter_tags (formatMarkdown s)"
    by (rule only_formatMarkdown)
qed

theorem formatMarkdown_escapes_first_witness:
  "formatMarkdown ''<img src=x>**hi**'' = ''&lt;img src=x&gt;<strong>hi</strong>'' \<and>
   only_formatter_tags ''&lt;img src=x&gt;<strong>hi</strong>'' \<and>
   no_angle (escapeHtml ''<img src=x>**hi**'')"
proof -
  from formatMarkdown_escapes_first [of "''<img src=x>**hi**''"]
  have "only_formatter_tags (formatMarkdown ''<img src=x>**hi**'')"
    and "no_angle (escapeHtml ''<img src=x>**hi**'')"
    by blast+
  then show ?thesis
    by (simp only: sample_format simp_thms)
qed

section \<open>Properties of the orchestrator\<close>




end
